theory Spec2Isabelle
  imports Complex_Main
begin

unbundle bit_operations_syntax

section \<open>Data model of ObjectTraker.py\<close>

text \<open>
  The module keeps five globals (\<open>drawing\<close>, \<open>start_point\<close>, \<open>end_point\<close>,
  \<open>tracker\<close>, \<open>tracking_active\<close>) that the mouse callback and the main loop both
  mutate; here they are the fields of one record that every operation takes and
  returns. The serial handle \<open>ser\<close> is assigned once, before the loop, and is a
  parameter of the loop.

  A frame is a numpy array; the program reads its \<open>shape\<close> and hands it on to the
  tracker, so a frame is its two dimensions and its (uninterpreted) pixel data.
  Pixel coordinates and key codes are Python integers: \<open>int\<close>.
\<close>

type_synonym point = "int \<times> int"

type_synonym bbox = "int \<times> int \<times> int \<times> int"

record frame =
  frame_h :: nat
  frame_w :: nat
  pixels :: "nat list"

text \<open>
  The tracker is an external black box. A handle is either as
  \<open>cv2.TrackerCSRT_create()\<close> returned it, or records what \<open>tracker.init(frame, bbox)\<close>
  was called with when that call returned. Whether \<open>tracker.init\<close> returns or raises
  (it raises \<open>cv2.error\<close>, for instance, for a box that reaches outside the frame)
  and what \<open>tracker.update\<close> answers are inputs of the model.
\<close>

datatype tracker = TrackerCSRT_create | TrackerCSRT frame bbox

datatype serial = Serial

record state =
  drawing :: bool
  start_point :: "point option"
  end_point :: "point option"
  tracker :: "tracker option"
  tracking_active :: bool

definition initial_state :: state where
  "initial_state =
     \<lparr>drawing = False, start_point = None, end_point = None,
      tracker = None, tracking_active = False\<rparr>"

text \<open>
  Calls on the external collaborators are recorded, in order, as effects. Console
  output and drawing on the frame do not feed back into the program and are left out.
\<close>

datatype effect =
    TrackerInit frame bbox
  | TrackerUpdate frame
  | SerialWrite string
  | SerialClose
  | CapRelease

datatype py_error =
    TypeError
  | ValueError
  | ZeroDivisionError
  | OverflowError
  | SerialException
  | CvError

datatype mouse_event =
    EVENT_LBUTTONDOWN
  | EVENT_MOUSEMOVE
  | EVENT_LBUTTONUP
  | EVENT_OTHER

section \<open>The mouse callback\<close>

text \<open>
  \<open>init_tracker(frame, bbox)\<close> assigns the new handle to \<open>tracker\<close>, calls
  \<open>tracker.init\<close> and sets \<open>tracking_active\<close> only after that call has returned;
  \<open>init_raises\<close> says whether the call raises.
\<close>

definition init_tracker ::
  "bool \<Rightarrow> frame \<Rightarrow> bbox \<Rightarrow> state \<Rightarrow> state \<times> effect list \<times> py_error option"
where
  "init_tracker init_raises f b s =
     (if init_raises
      then (s\<lparr>tracker := Some TrackerCSRT_create\<rparr>, [TrackerInit f b], Some CvError)
      else (s\<lparr>tracker := Some (TrackerCSRT f b), tracking_active := True\<rparr>,
            [TrackerInit f b], None))"

text \<open>
  \<open>select_roi_callback(event, x, y, flags, param)\<close>; \<open>f\<close> is \<open>param['frame']\<close>, which
  the loop sets before the first \<open>waitKey\<close> and so before any callback runs;
  \<open>init_raises\<close> is what \<open>tracker.init\<close> does if this invocation calls it.
  On release the unpacking \<open>x1, y1 = start_point\<close> raises \<open>TypeError\<close> when
  \<open>start_point\<close> is \<open>None\<close>, after \<open>drawing\<close> and \<open>end_point\<close> have been assigned.
\<close>

fun select_roi_callback ::
  "mouse_event \<Rightarrow> int \<Rightarrow> int \<Rightarrow> frame \<Rightarrow> bool \<Rightarrow> state \<Rightarrow>
     state \<times> effect list \<times> py_error option"
where
  "select_roi_callback EVENT_LBUTTONDOWN x y f init_raises s =
     (s\<lparr>drawing := True, start_point := Some (x, y), end_point := Some (x, y),
        tracking_active := False\<rparr>, [], None)"
| "select_roi_callback EVENT_MOUSEMOVE x y f init_raises s =
     (if drawing s then (s\<lparr>end_point := Some (x, y)\<rparr>, [], None) else (s, [], None))"
| "select_roi_callback EVENT_LBUTTONUP x y f init_raises s =
     (let s1 = s\<lparr>drawing := False, end_point := Some (x, y)\<rparr> in
      case start_point s1 of
        None \<Rightarrow> (s1, [], Some TypeError)
      | Some (x1, y1) \<Rightarrow>
          (let x2 = x; y2 = y;
               x_min = min x1 x2;
               y_min = min y1 y2;
               width = \<bar>x2 - x1\<bar>;
               height = \<bar>y2 - y1\<bar>
           in if width > 10 \<and> height > 10
              then init_tracker init_raises f (x_min, y_min, width, height) s1
              else (s1, [], None)))"
| "select_roi_callback EVENT_OTHER x y f init_raises s = (s, [], None)"

text \<open>
  A run of callback invocations, each with the frame current at that moment and
  with what \<open>tracker.init\<close> does if that invocation calls it.
  An exception raised inside a callback does not reach the caller of the
  callback: the bindings report it and go on with the next event.
\<close>

fun callbacks ::
  "(mouse_event \<times> int \<times> int \<times> frame \<times> bool) list \<Rightarrow> state \<Rightarrow> state \<times> effect list"
where
  "callbacks [] s = (s, [])"
| "callbacks ((ev, x, y, f, init_raises) # rest) s =
     (case select_roi_callback ev x y f init_raises s of
        (s1, es1, _) \<Rightarrow> (case callbacks rest s1 of (s2, es2) \<Rightarrow> (s2, es1 @ es2)))"

section \<open>Python floats\<close>

text \<open>
  \<open>error_x\<close>, \<open>error_y\<close> and the products with \<open>MAX_DEFLECTION\<close> are Python floats:
  IEEE 754 binary64 values, every operation rounded to nearest, ties to even.
  A finite binary64 value is a rational number, so a float is modelled as the
  rational it denotes, or an infinity, or NaN, and each operation rounds the exact
  rational result. The two zeros are identified: the program divides by a float
  only where Python raises on a zero divisor of either sign, and never prints a float
  into the command.
\<close>

function bit_length :: "int \<Rightarrow> int" where
  "bit_length n = (if n \<le> 0 then 0 else 1 + bit_length (n div 2))"
  by pat_completeness auto
termination
  by (relation "measure nat") auto

declare bit_length.simps [simp del]

text \<open>\<open>ilog2 x\<close> is the integer \<open>e\<close> with \<open>2^e \<le> x < 2^(e+1)\<close>, for \<open>x > 0\<close>.\<close>

definition ilog2 :: "rat \<Rightarrow> int" where
  "ilog2 x = (if 1 \<le> x then bit_length \<lfloor>x\<rfloor> - 1 else - bit_length (\<lceil>1 / x\<rceil> - 1))"

text \<open>Rounding to the nearest integer, ties to the even one.\<close>

definition rne :: "rat \<Rightarrow> int" where
  "rne m = (let f = \<lfloor>m\<rfloor>; d = m - of_int f
            in if d < 1 / 2 then f
               else if 1 / 2 < d then f + 1
               else if even f then f else f + 1)"

text \<open>
  The exponent of the binade of \<open>x\<close> (at least \<open>-1022\<close>: below that the values are
  subnormal) and the spacing of the 53-bit grid there.
\<close>

definition expo :: "rat \<Rightarrow> int" where
  "expo x = max (ilog2 \<bar>x\<bar>) (- 1022)"

definition ulp :: "rat \<Rightarrow> rat" where
  "ulp x = 2 powi (expo x - 52)"

definition round_binary64 :: "rat \<Rightarrow> rat" where
  "round_binary64 x = sgn x * (of_int (rne (\<bar>x\<bar> / ulp x)) * ulp x)"

datatype pyfloat = Finite rat | PosInf | NegInf | NaN

definition to_float :: "rat \<Rightarrow> pyfloat" where
  "to_float x =
     (let r = round_binary64 x
      in if \<bar>r\<bar> < 2 ^ 1024 then Finite r else if 0 < r then PosInf else NegInf)"

text \<open>\<open>float(n)\<close> for an integer, as in \<open>int - float\<close> and \<open>float * int\<close>.\<close>

definition float_of_int :: "int \<Rightarrow> py_error + pyfloat" where
  "float_of_int n =
     (case to_float (of_int n) of Finite r \<Rightarrow> Inr (Finite r) | _ \<Rightarrow> Inl OverflowError)"

text \<open>\<open>a / b\<close> on two integers: the correctly rounded quotient.\<close>

definition int_truediv :: "int \<Rightarrow> int \<Rightarrow> py_error + pyfloat" where
  "int_truediv a b =
     (if b = 0 then Inl ZeroDivisionError
      else case to_float (of_int a / of_int b) of
             Finite r \<Rightarrow> Inr (Finite r)
           | _ \<Rightarrow> Inl OverflowError)"

fun float_neg :: "pyfloat \<Rightarrow> pyfloat" where
  "float_neg (Finite a) = Finite (- a)"
| "float_neg PosInf = NegInf"
| "float_neg NegInf = PosInf"
| "float_neg NaN = NaN"

fun float_sub :: "pyfloat \<Rightarrow> pyfloat \<Rightarrow> pyfloat" where
  "float_sub (Finite a) (Finite b) = to_float (a - b)"
| "float_sub NaN _ = NaN"
| "float_sub _ NaN = NaN"
| "float_sub PosInf PosInf = NaN"
| "float_sub NegInf NegInf = NaN"
| "float_sub PosInf _ = PosInf"
| "float_sub NegInf _ = NegInf"
| "float_sub (Finite a) PosInf = NegInf"
| "float_sub (Finite a) NegInf = PosInf"

fun float_mul :: "pyfloat \<Rightarrow> pyfloat \<Rightarrow> pyfloat" where
  "float_mul (Finite a) (Finite b) = to_float (a * b)"
| "float_mul NaN _ = NaN"
| "float_mul _ NaN = NaN"
| "float_mul PosInf (Finite b) = (if b = 0 then NaN else if 0 < b then PosInf else NegInf)"
| "float_mul NegInf (Finite b) = (if b = 0 then NaN else if 0 < b then NegInf else PosInf)"
| "float_mul (Finite a) PosInf = (if a = 0 then NaN else if 0 < a then PosInf else NegInf)"
| "float_mul (Finite a) NegInf = (if a = 0 then NaN else if 0 < a then NegInf else PosInf)"
| "float_mul PosInf PosInf = PosInf"
| "float_mul NegInf NegInf = PosInf"
| "float_mul PosInf NegInf = NegInf"
| "float_mul NegInf PosInf = NegInf"

text \<open>Float division raises on a zero divisor instead of returning an infinity.\<close>

fun float_div :: "pyfloat \<Rightarrow> pyfloat \<Rightarrow> py_error + pyfloat" where
  "float_div (Finite a) (Finite b) =
     (if b = 0 then Inl ZeroDivisionError else Inr (to_float (a / b)))"
| "float_div NaN (Finite b) = (if b = 0 then Inl ZeroDivisionError else Inr NaN)"
| "float_div PosInf (Finite b) =
     (if b = 0 then Inl ZeroDivisionError else Inr (if 0 < b then PosInf else NegInf))"
| "float_div NegInf (Finite b) =
     (if b = 0 then Inl ZeroDivisionError else Inr (if 0 < b then NegInf else PosInf))"
| "float_div _ NaN = Inr NaN"
| "float_div (Finite a) _ = Inr (Finite 0)"
| "float_div _ _ = Inr NaN"

text \<open>\<open>int(v)\<close> on a finite number drops the fraction, toward zero.\<close>

definition py_int :: "rat \<Rightarrow> int" where
  "py_int v = (if 0 \<le> v then \<lfloor>v\<rfloor> else \<lceil>v\<rceil>)"

fun int_of_float :: "pyfloat \<Rightarrow> py_error + int" where
  "int_of_float (Finite a) = Inr (py_int a)"
| "int_of_float PosInf = Inl OverflowError"
| "int_of_float NegInf = Inl OverflowError"
| "int_of_float NaN = Inl ValueError"

definition int_sub_float :: "int \<Rightarrow> pyfloat \<Rightarrow> py_error + pyfloat" where
  "int_sub_float n b =
     (case float_of_int n of Inl e \<Rightarrow> Inl e | Inr a \<Rightarrow> Inr (float_sub a b))"

definition float_mul_int :: "pyfloat \<Rightarrow> int \<Rightarrow> py_error + pyfloat" where
  "float_mul_int a n =
     (case float_of_int n of Inl e \<Rightarrow> Inl e | Inr b \<Rightarrow> Inr (float_mul a b))"

section \<open>From the tracked box to the fin command\<close>

text \<open>
  \<open>(center - n / 2) / (n / 2)\<close>, with \<open>n\<close> one of the two dimensions of
  \<open>frame.shape\<close>, evaluated left to right.
\<close>

definition normalized_error :: "int \<Rightarrow> nat \<Rightarrow> py_error + pyfloat" where
  "normalized_error center n =
     (case int_truediv (int n) 2 of Inl e \<Rightarrow> Inl e | Inr half \<Rightarrow>
      case int_sub_float center half of Inl e \<Rightarrow> Inl e | Inr d \<Rightarrow>
      case int_truediv (int n) 2 of Inl e \<Rightarrow> Inl e | Inr half' \<Rightarrow>
      float_div d half')"

definition MAX_DEFLECTION :: int where
  "MAX_DEFLECTION = 30"

text \<open>\<open>int(v * MAX_DEFLECTION)\<close>.\<close>

definition fin :: "pyfloat \<Rightarrow> py_error + int" where
  "fin v =
     (case float_mul_int v MAX_DEFLECTION of Inl e \<Rightarrow> Inl e | Inr p \<Rightarrow> int_of_float p)"

record deflection =
  fin_left :: int
  fin_right :: int
  fin_top :: int
  fin_bottom :: int

text \<open>
  The box the tracker reports is a tuple of four numbers, integers or finite floats
  depending on the tracker; the program converts each with \<open>int\<close>.
\<close>

type_synonym reported_box = "rat \<times> rat \<times> rat \<times> rat"

definition box_center :: "reported_box \<Rightarrow> point" where
  "box_center bb =
     (case bb of (bx, by, bw, bh) \<Rightarrow>
        (let x = py_int bx; y = py_int by; w = py_int bw; h = py_int bh
         in (x + w div 2, y + h div 2)))"

definition compute_command :: "reported_box \<Rightarrow> frame \<Rightarrow> py_error + deflection" where
  "compute_command bb fr =
     (case box_center bb of (center_x, center_y) \<Rightarrow>
      case normalized_error center_x (frame_w fr) of Inl e \<Rightarrow> Inl e | Inr error_x \<Rightarrow>
      case normalized_error center_y (frame_h fr) of Inl e \<Rightarrow> Inl e | Inr error_y \<Rightarrow>
      case fin (float_neg error_x) of Inl e \<Rightarrow> Inl e | Inr l \<Rightarrow>
      case fin error_x of Inl e \<Rightarrow> Inl e | Inr r \<Rightarrow>
      case fin (float_neg error_y) of Inl e \<Rightarrow> Inl e | Inr t \<Rightarrow>
      case fin error_y of Inl e \<Rightarrow> Inl e | Inr b \<Rightarrow>
      Inr \<lparr>fin_left = l, fin_right = r, fin_top = t, fin_bottom = b\<rparr>)"

text \<open>Decimal text of an integer, as an f-string prints it.\<close>

fun str_nat :: "nat \<Rightarrow> string" where
  "str_nat n =
     (if n < 10 then [''0123456789'' ! n]
      else str_nat (n div 10) @ [''0123456789'' ! (n mod 10)])"

declare str_nat.simps [simp del]

definition str_int :: "int \<Rightarrow> string" where
  "str_int i = (if i < 0 then CHR ''-'' # str_nat (nat (- i)) else str_nat (nat i))"

definition format_command :: "deflection \<Rightarrow> string" where
  "format_command d =
     ''<'' @ str_int (fin_left d) @ '','' @ str_int (fin_right d) @ '','' @
     str_int (fin_top d) @ '','' @ str_int (fin_bottom d) @ ''>'' @ [CHR 0x0A]"

section \<open>The control loop\<close>

text \<open>
  The tracking part of one iteration. \<open>upd\<close> is what \<open>tracker.update(frame)\<close> answers
  if it is called, and \<open>write_raises\<close> whether \<open>ser.write\<close> raises if it is called.
\<close>

definition track_step ::
  "serial option \<Rightarrow> frame \<Rightarrow> bool \<times> reported_box \<Rightarrow> bool \<Rightarrow> state \<Rightarrow>
     state \<times> effect list \<times> py_error option"
where
  "track_step ser fr upd write_raises s =
     (if tracking_active s \<and> tracker s \<noteq> None then
        (case upd of (success, bb) \<Rightarrow>
           if success then
             (case compute_command bb fr of
                Inl e \<Rightarrow> (s, [TrackerUpdate fr], Some e)
              | Inr d \<Rightarrow>
                  (case ser of
                     None \<Rightarrow> (s, [TrackerUpdate fr], None)
                   | Some _ \<Rightarrow>
                       (s, [TrackerUpdate fr, SerialWrite (format_command d)],
                        if write_raises then Some SerialException else None)))
           else (s\<lparr>tracking_active := False\<rparr>, [TrackerUpdate fr], None))
      else (s, [], None))"

text \<open>
  What one iteration receives from outside: the answer of \<open>cap.read()\<close> (\<open>None\<close> when
  \<open>ret\<close> is false), the tracker's answer, the behaviour of the serial port, the
  mouse events delivered during \<open>waitKey\<close> (each with what \<open>tracker.init\<close> does if
  the callback calls it), and the value \<open>waitKey\<close> returns.
\<close>

record iteration =
  grabbed :: "frame option"
  tracked :: "bool \<times> reported_box"
  write_raises :: bool
  events :: "(mouse_event \<times> int \<times> int \<times> bool) list"
  key :: int

datatype control = Continue | Break | Raise py_error

definition reset :: "state \<Rightarrow> state" where
  "reset s =
     s\<lparr>tracking_active := False, tracker := None, drawing := False,
       start_point := None, end_point := None\<rparr>"

definition ord :: "char \<Rightarrow> int" where
  "ord c = of_char c"

definition loop_body :: "serial option \<Rightarrow> iteration \<Rightarrow> state \<Rightarrow> control \<times> state \<times> effect list" where
  "loop_body ser it s =
     (case grabbed it of
        None \<Rightarrow> (Break, s, [])
      | Some fr \<Rightarrow>
          (case track_step ser fr (tracked it) (write_raises it) s of
             (s1, es1, Some e) \<Rightarrow> (Raise e, s1, es1)
           | (s1, es1, None) \<Rightarrow>
               (case callbacks (map (\<lambda>(ev, x, y, r). (ev, x, y, fr, r)) (events it)) s1 of
                  (s2, es2) \<Rightarrow>
                    (let k = key it AND 0xFF
                     in if k = ord CHR ''q'' then (Break, s2, es1 @ es2)
                        else if k = ord CHR ''r'' then (Continue, reset s2, es1 @ es2)
                        else (Continue, s2, es1 @ es2)))))"

text \<open>
  \<open>while True\<close>, driven by the list of what each iteration receives; the result is
  \<open>Continue\<close> when the list ends with the loop still running.
\<close>

fun run_loop :: "serial option \<Rightarrow> iteration list \<Rightarrow> state \<Rightarrow> control \<times> state \<times> effect list" where
  "run_loop ser [] s = (Continue, s, [])"
| "run_loop ser (it # its) s =
     (case loop_body ser it s of
        (Continue, s1, es1) \<Rightarrow>
          (case run_loop ser its s1 of (c, s2, es2) \<Rightarrow> (c, s2, es1 @ es2))
      | (c, s1, es1) \<Rightarrow> (c, s1, es1))"

record run =
  serial_opens :: bool
  camera_opens :: bool
  iterations :: "iteration list"

text \<open>
  \<open>main()\<close>: a failure to open the serial port leaves \<open>ser = None\<close>; a camera that
  does not open ends the program at once.
\<close>

definition main :: "run \<Rightarrow> control \<times> effect list" where
  "main r =
     (let ser = (if serial_opens r then Some Serial else None)
      in if \<not> camera_opens r then (Break, [])
         else (case run_loop ser (iterations r) initial_state of
                 (Break, s, es) \<Rightarrow>
                   (Break, es @ [CapRelease] @ (case ser of None \<Rightarrow> [] | Some _ \<Rightarrow> [SerialClose]))
               | (c, s, es) \<Rightarrow> (c, es)))"

text \<open>The effects that touch the serial port.\<close>

fun serial_effect :: "effect \<Rightarrow> bool" where
  "serial_effect (SerialWrite _) = True"
| "serial_effect SerialClose = True"
| "serial_effect _ = False"

text \<open>The same run of the loop with a serial port on which no write ever fails.\<close>

definition writes_succeed :: "iteration list \<Rightarrow> iteration list" where
  "writes_succeed its = map (\<lambda>it. it\<lparr>write_raises := False\<rparr>) its"

section \<open>The command as the specification words it\<close>

text \<open>
  The center is \<open>(x + width/2, y + height/2)\<close> with the halves truncated; the error
  is \<open>(center - size/2) / (size/2)\<close>, one float; each fin value is \<open>\<plusminus>error * 30\<close>, one
  float, truncated toward zero.
\<close>

definition trunc_toward_zero :: "rat \<Rightarrow> int" where
  "trunc_toward_zero v = (if v < 0 then - \<lfloor>- v\<rfloor> else \<lfloor>v\<rfloor>)"

definition spec_center :: "bbox \<Rightarrow> point" where
  "spec_center b =
     (case b of (x, y, w, h) \<Rightarrow>
        (x + trunc_toward_zero (of_int w / 2), y + trunc_toward_zero (of_int h / 2)))"

definition spec_error :: "int \<Rightarrow> nat \<Rightarrow> rat" where
  "spec_error c n = round_binary64 ((of_int c - of_nat n / 2) / (of_nat n / 2))"

definition spec_fin :: "rat \<Rightarrow> int" where
  "spec_fin v = trunc_toward_zero (round_binary64 (v * 30))"

definition spec_command :: "bbox \<Rightarrow> frame \<Rightarrow> deflection" where
  "spec_command b fr =
     (case spec_center b of (cx, cy) \<Rightarrow>
        (let error_x = spec_error cx (frame_w fr);
             error_y = spec_error cy (frame_h fr)
         in \<lparr>fin_left = spec_fin (- error_x), fin_right = spec_fin error_x,
             fin_top = spec_fin (- error_y), fin_bottom = spec_fin error_y\<rparr>))"

section \<open>Selection: press, drag, release\<close>

lemma callbacks_moves:
  assumes "drawing s" and "\<forall>e \<in> set ms. fst e = EVENT_MOUSEMOVE"
  shows "\<exists>p. callbacks ms s = (s\<lparr>end_point := p\<rparr>, [])"
  using assms
proof (induction ms arbitrary: s)
  case Nil
  have "s = s\<lparr>end_point := end_point s\<rparr>" by simp
  then show ?case by (metis callbacks.simps(1))
next
  case (Cons e ms)
  obtain ev x y f r where e: "e = (ev, x, y, f, r)" by (cases e) auto
  with Cons.prems have ev: "ev = EVENT_MOUSEMOVE" by simp
  let ?s1 = "s\<lparr>end_point := Some (x, y)\<rparr>"
  have "drawing ?s1" using Cons.prems by simp
  moreover have "\<forall>e \<in> set ms. fst e = EVENT_MOUSEMOVE" using Cons.prems by simp
  ultimately obtain p where p: "callbacks ms ?s1 = (?s1\<lparr>end_point := p\<rparr>, [])"
    using Cons.IH by blast
  have "callbacks (e # ms) s = (s\<lparr>end_point := p\<rparr>, [])"
    using Cons.prems(1) p by (simp add: e ev)
  then show ?case by blast
qed

lemma callbacks_append:
  "callbacks (xs @ ys) s =
     (case callbacks xs s of (s1, es1) \<Rightarrow>
        (case callbacks ys s1 of (s2, es2) \<Rightarrow> (s2, es1 @ es2)))"
  by (induction xs arbitrary: s) (auto split: prod.splits)


lemma release_rejected:
  assumes "start_point s = Some (x1, y1)" and "\<bar>x2 - x1\<bar> \<le> 10 \<or> \<bar>y2 - y1\<bar> \<le> 10"
  shows "select_roi_callback EVENT_LBUTTONUP x2 y2 f r s =
           (s\<lparr>drawing := False, end_point := Some (x2, y2)\<rparr>, [], None)"
  using assms by (auto simp add: Let_def)

text \<open>
  When \<open>tracker.init\<close> raises, the call has been issued, \<open>tracker\<close> holds the handle
  as created, \<open>tracking_active\<close> is as it was and the exception leaves the callback.
\<close>

lemma release_init_raises:
  assumes "start_point s = Some (x1, y1)" and "10 < \<bar>x2 - x1\<bar>" and "10 < \<bar>y2 - y1\<bar>"
  shows "select_roi_callback EVENT_LBUTTONUP x2 y2 f True s =
           (s\<lparr>drawing := False, end_point := Some (x2, y2), tracker := Some TrackerCSRT_create\<rparr>,
            [TrackerInit f (min x1 x2, min y1 y2, \<bar>x2 - x1\<bar>, \<bar>y2 - y1\<bar>)], Some CvError)"
  using assms by (simp add: init_tracker_def Let_def)

lemma press_then_moves:
  assumes "\<forall>e \<in> set moves. fst e = EVENT_MOUSEMOVE"
  shows "\<exists>p. callbacks ((EVENT_LBUTTONDOWN, x, y, f, r) # moves) s =
           (s\<lparr>drawing := True, start_point := Some (x, y), end_point := p,
              tracking_active := False\<rparr>, [])"
proof -
  let ?s0 = "s\<lparr>drawing := True, start_point := Some (x, y), end_point := Some (x, y),
               tracking_active := False\<rparr>"
  have "drawing ?s0" by simp
  then obtain p where "callbacks moves ?s0 = (?s0\<lparr>end_point := p\<rparr>, [])"
    using callbacks_moves [OF _ assms] by blast
  then have "callbacks ((EVENT_LBUTTONDOWN, x, y, f, r) # moves) s =
           (s\<lparr>drawing := True, start_point := Some (x, y), end_point := p,
              tracking_active := False\<rparr>, [])"
    by simp
  then show ?thesis by blast
qed



text \<open>
  C4. A completed drag whose box has width at most 10 or height at most 10 issues
  no call on the tracker at all and leaves the tracker handle as it was; afterwards
  \<open>drawing\<close> and \<open>tracking_active\<close> are both false.
\<close>

theorem rejected_drag_stays_idle:
  assumes "\<forall>e \<in> set moves. fst e = EVENT_MOUSEMOVE"
    and "\<bar>x2 - x1\<bar> \<le> 10 \<or> \<bar>y2 - y1\<bar> \<le> 10"
  shows "callbacks ((EVENT_LBUTTONDOWN, x1, y1, f0, r0) # moves @ [(EVENT_LBUTTONUP, x2, y2, f, r)]) s =
           (s\<lparr>drawing := False, start_point := Some (x1, y1), end_point := Some (x2, y2),
              tracking_active := False\<rparr>, [])"
proof -
  obtain p where p: "callbacks ((EVENT_LBUTTONDOWN, x1, y1, f0, r0) # moves) s =
      (s\<lparr>drawing := True, start_point := Some (x1, y1), end_point := p,
         tracking_active := False\<rparr>, [])"
    using press_then_moves [OF assms(1)] by blast
  let ?s1 = "s\<lparr>drawing := True, start_point := Some (x1, y1), end_point := p,
               tracking_active := False\<rparr>"
  have st: "start_point ?s1 = Some (x1, y1)" by simp
  have up: "callbacks [(EVENT_LBUTTONUP, x2, y2, f, r)] ?s1 =
      (s\<lparr>drawing := False, start_point := Some (x1, y1), end_point := Some (x2, y2),
         tracking_active := False\<rparr>, [])"
    using release_rejected [OF st assms(2), where f = f and r = r] by simp
  have "callbacks (((EVENT_LBUTTONDOWN, x1, y1, f0, r0) # moves) @ [(EVENT_LBUTTONUP, x2, y2, f, r)]) s =
      (s\<lparr>drawing := False, start_point := Some (x1, y1), end_point := Some (x2, y2),
         tracking_active := False\<rparr>, [])"
    unfolding callbacks_append p using up by simp
  then show ?thesis by simp
qed

theorem rejected_drag_stays_idle_witness:
  "((\<bar>90 - 50\<bar> \<le> (10::int)) \<or> (\<bar>60 - 50\<bar> \<le> (10::int))) \<and>
   callbacks [(EVENT_LBUTTONDOWN, 50, 50, \<lparr>frame_h = 480, frame_w = 640, pixels = [0]\<rparr>, False),
              (EVENT_MOUSEMOVE, 70, 55, \<lparr>frame_h = 480, frame_w = 640, pixels = [1]\<rparr>, False),
              (EVENT_LBUTTONUP, 90, 60, \<lparr>frame_h = 480, frame_w = 640, pixels = [2]\<rparr>, True)]
     initial_state =
     (\<lparr>drawing = False, start_point = Some (50, 50), end_point = Some (90, 60),
       tracker = None, tracking_active = False\<rparr>, [])"
  using rejected_drag_stays_idle
    [where moves = "[(EVENT_MOUSEMOVE, 70, 55, \<lparr>frame_h = 480, frame_w = 640, pixels = [1]\<rparr>, False)]"
       and ?x1.0 = 50 and ?y1.0 = 50 and ?x2.0 = 90 and ?y2.0 = 60
       and ?f0.0 = "\<lparr>frame_h = 480, frame_w = 640, pixels = [0]\<rparr>" and ?r0.0 = False
       and f = "\<lparr>frame_h = 480, frame_w = 640, pixels = [2]\<rparr>" and r = True
       and s = initial_state]
  by (simp add: initial_state_def)

section \<open>Pressing, losing the target, resetting\<close>

lemma track_step_inactive:
  "\<not> tracking_active s \<Longrightarrow> track_step ser fr upd wr s = (s, [], None)"
  by (simp add: track_step_def)

text \<open>
  C9. A pointer press at \<open>(x, y)\<close>, in any state (so in Idle and in Tracking), sets
  \<open>drawing\<close>, sets \<open>start_point\<close> and \<open>end_point\<close> to \<open>(x, y)\<close> and clears
  \<open>tracking_active\<close>. While the drag goes on (any pointer moves after the press)
  \<open>drawing\<close> and \<open>start_point\<close> stay, \<open>tracking_active\<close> stays false, and the
  tracking part of a loop iteration neither updates the tracker nor writes to the
  serial port.
\<close>

theorem press_starts_dragging:
  assumes "\<forall>e \<in> set moves. fst e = EVENT_MOUSEMOVE"
  shows "select_roi_callback EVENT_LBUTTONDOWN x y f r s =
           (s\<lparr>drawing := True, start_point := Some (x, y), end_point := Some (x, y),
              tracking_active := False\<rparr>, [], None) \<and>
         (\<exists>p. callbacks ((EVENT_LBUTTONDOWN, x, y, f, r) # moves) s =
                (s\<lparr>drawing := True, start_point := Some (x, y), end_point := p,
                   tracking_active := False\<rparr>, []) \<and>
              (moves = [] \<longrightarrow> p = Some (x, y)) \<and>
              track_step ser fr upd wr
                (s\<lparr>drawing := True, start_point := Some (x, y), end_point := p,
                   tracking_active := False\<rparr>) =
                (s\<lparr>drawing := True, start_point := Some (x, y), end_point := p,
                   tracking_active := False\<rparr>, [], None))"
proof (cases "moves = []")
  case True
  then show ?thesis by (simp add: track_step_inactive)
next
  case False
  obtain p where "callbacks ((EVENT_LBUTTONDOWN, x, y, f, r) # moves) s =
      (s\<lparr>drawing := True, start_point := Some (x, y), end_point := p,
         tracking_active := False\<rparr>, [])"
    using press_then_moves [OF assms] by blast
  with False show ?thesis by (auto simp add: track_step_inactive)
qed

theorem press_starts_dragging_witness:
  "callbacks [(EVENT_LBUTTONDOWN, 50, 50, \<lparr>frame_h = 480, frame_w = 640, pixels = []\<rparr>, True),
              (EVENT_MOUSEMOVE, 60, 70, \<lparr>frame_h = 480, frame_w = 640, pixels = []\<rparr>, False)]
     \<lparr>drawing = False, start_point = Some (1, 2), end_point = Some (30, 40),
      tracker = Some (TrackerCSRT \<lparr>frame_h = 480, frame_w = 640, pixels = []\<rparr> (1, 2, 29, 38)),
      tracking_active = True\<rparr> =
     (\<lparr>drawing = True, start_point = Some (50, 50), end_point = Some (60, 70),
       tracker = Some (TrackerCSRT \<lparr>frame_h = 480, frame_w = 640, pixels = []\<rparr> (1, 2, 29, 38)),
       tracking_active = False\<rparr>, [])"
  using press_starts_dragging
    [where moves = "[(EVENT_MOUSEMOVE, 60, 70, \<lparr>frame_h = 480, frame_w = 640, pixels = []\<rparr>, False)]"
       and x = 50 and y = 50 and f = "\<lparr>frame_h = 480, frame_w = 640, pixels = []\<rparr>" and r = True
       and s = "\<lparr>drawing = False, start_point = Some (1, 2), end_point = Some (30, 40),
          tracker = Some (TrackerCSRT \<lparr>frame_h = 480, frame_w = 640, pixels = []\<rparr> (1, 2, 29, 38)),
          tracking_active = True\<rparr>"]
  by simp

text \<open>
  C8. On a frame where the tracker is active and \<open>tracker.update\<close> reports failure,
  the tracking part of the iteration calls the tracker exactly once, writes nothing
  to the serial port, raises nothing and clears \<open>tracking_active\<close>; with the flag
  cleared, the tracking part of a later iteration does not call the tracker again.
\<close>

theorem lost_target_stops_tracking:
  assumes "tracking_active s" and "tracker s \<noteq> None"
  shows "track_step ser fr (False, bb) wr s =
           (s\<lparr>tracking_active := False\<rparr>, [TrackerUpdate fr], None) \<and>
         track_step ser fr' upd' wr' (s\<lparr>tracking_active := False\<rparr>) =
           (s\<lparr>tracking_active := False\<rparr>, [], None)"
  using assms by (simp add: track_step_def)

theorem lost_target_stops_tracking_witness:
  "tracking_active
     \<lparr>drawing = False, start_point = Some (1, 2), end_point = Some (30, 40),
      tracker = Some (TrackerCSRT \<lparr>frame_h = 480, frame_w = 640, pixels = []\<rparr> (1, 2, 29, 38)),
      tracking_active = True\<rparr> \<and>
   track_step (Some Serial) \<lparr>frame_h = 480, frame_w = 640, pixels = [7]\<rparr>
     (False, (0, 0, 0, 0)) False
     \<lparr>drawing = False, start_point = Some (1, 2), end_point = Some (30, 40),
      tracker = Some (TrackerCSRT \<lparr>frame_h = 480, frame_w = 640, pixels = []\<rparr> (1, 2, 29, 38)),
      tracking_active = True\<rparr> =
     (\<lparr>drawing = False, start_point = Some (1, 2), end_point = Some (30, 40),
       tracker = Some (TrackerCSRT \<lparr>frame_h = 480, frame_w = 640, pixels = []\<rparr> (1, 2, 29, 38)),
       tracking_active = False\<rparr>,
      [TrackerUpdate \<lparr>frame_h = 480, frame_w = 640, pixels = [7]\<rparr>], None)"
  using lost_target_stops_tracking
    [of "\<lparr>drawing = False, start_point = Some (1, 2), end_point = Some (30, 40),
          tracker = Some (TrackerCSRT \<lparr>frame_h = 480, frame_w = 640, pixels = []\<rparr> (1, 2, 29, 38)),
          tracking_active = True\<rparr>"
        "Some Serial" "\<lparr>frame_h = 480, frame_w = 640, pixels = [7]\<rparr>" "(0, 0, 0, 0)" False]
  by simp

lemma ord_r: "ord CHR ''r'' = 114"
  by (simp add: ord_def)

lemma ord_q: "ord CHR ''q'' = 113"
  by (simp add: ord_def)

text \<open>
  C6. In an iteration that reaches \<open>waitKey\<close> (a frame was grabbed and the tracking
  part raised nothing) and in which \<open>waitKey\<close> returns the key \<open>r\<close>, the loop goes
  on and the state at the end of the iteration is the initial one, whatever the
  state at the start and whatever the mouse did during the iteration:
  \<open>tracking_active\<close> and \<open>drawing\<close> false, tracker and both points \<open>None\<close>.
\<close>

theorem reset_key_returns_to_idle:
  assumes "grabbed it = Some fr"
    and "snd (snd (track_step ser fr (tracked it) (write_raises it) s)) = None"
    and "key it AND 0xFF = ord CHR ''r''"
  shows "fst (loop_body ser it s) = Continue \<and>
         fst (snd (loop_body ser it s)) =
           \<lparr>drawing = False, start_point = None, end_point = None, tracker = None,
            tracking_active = False\<rparr>"
  using assms
  by (auto simp add: loop_body_def reset_def ord_r ord_q Let_def split: prod.splits option.splits)

theorem reset_key_returns_to_idle_witness:
  "grabbed \<lparr>grabbed = Some \<lparr>frame_h = 480, frame_w = 640, pixels = [7]\<rparr>,
            tracked = (False, (0, 0, 0, 0)), write_raises = False,
            events = [(EVENT_LBUTTONDOWN, 5, 6, False)], key = 114\<rparr> =
     Some \<lparr>frame_h = 480, frame_w = 640, pixels = [7]\<rparr> \<and>
   (114::int) AND 0xFF = ord CHR ''r'' \<and>
   loop_body (Some Serial)
     \<lparr>grabbed = Some \<lparr>frame_h = 480, frame_w = 640, pixels = [7]\<rparr>,
      tracked = (False, (0, 0, 0, 0)), write_raises = False,
      events = [(EVENT_LBUTTONDOWN, 5, 6, False)], key = 114\<rparr>
     \<lparr>drawing = False, start_point = Some (1, 2), end_point = Some (30, 40),
      tracker = Some (TrackerCSRT \<lparr>frame_h = 480, frame_w = 640, pixels = []\<rparr> (1, 2, 29, 38)),
      tracking_active = True\<rparr> =
     (Continue,
      \<lparr>drawing = False, start_point = None, end_point = None, tracker = None,
       tracking_active = False\<rparr>,
      [TrackerUpdate \<lparr>frame_h = 480, frame_w = 640, pixels = [7]\<rparr>])"
  using reset_key_returns_to_idle
    [of "\<lparr>grabbed = Some \<lparr>frame_h = 480, frame_w = 640, pixels = [7]\<rparr>,
          tracked = (False, (0, 0, 0, 0)), write_raises = False,
          events = [(EVENT_LBUTTONDOWN, 5, 6, False)], key = 114\<rparr>"
        "\<lparr>frame_h = 480, frame_w = 640, pixels = [7]\<rparr>" "Some Serial"
        "\<lparr>drawing = False, start_point = Some (1, 2), end_point = Some (30, 40),
          tracker = Some (TrackerCSRT \<lparr>frame_h = 480, frame_w = 640, pixels = []\<rparr> (1, 2, 29, 38)),
          tracking_active = True\<rparr>"]
  by (simp add: loop_body_def track_step_def reset_def ord_r ord_q)

section \<open>Running without a serial port\<close>

lemma callbacks_effects:
  "callbacks evs s = (s', es) \<Longrightarrow> \<forall>e \<in> set es. \<not> serial_effect e"
proof (induction evs arbitrary: s s' es)
  case Nil
  then show ?case by simp
next
  case (Cons a evs)
  obtain ev x y f r where a: "a = (ev, x, y, f, r)" by (cases a) auto
  obtain s1 es1 err where c1: "select_roi_callback ev x y f r s = (s1, es1, err)"
    by (cases "select_roi_callback ev x y f r s") auto
  obtain s2 es2 where c2: "callbacks evs s1 = (s2, es2)"
    by (cases "callbacks evs s1") auto
  have es: "es = es1 @ es2" using Cons.prems(1) by (simp add: a c1 c2)
  have "\<forall>e \<in> set es1. \<not> serial_effect e"
    using c1 by (cases ev) (auto simp add: Let_def init_tracker_def split: option.splits if_splits)
  moreover have "\<forall>e \<in> set es2. \<not> serial_effect e"
    using Cons.IH [OF c2] .
  ultimately show ?case using es by auto
qed

lemma track_step_no_serial:
  "track_step None fr upd wr s =
     (case track_step (Some h) fr upd False s of
        (s', es, err) \<Rightarrow> (s', filter (\<lambda>e. \<not> serial_effect e) es, err))"
  by (cases upd) (simp add: track_step_def split: sum.splits)

lemma filter_callbacks:
  "callbacks evs s = (s', es) \<Longrightarrow> filter (\<lambda>e. \<not> serial_effect e) es = es"
  using callbacks_effects [of evs s s' es] by (simp add: filter_id_conv)

lemma loop_body_no_serial:
  "loop_body None it s =
     (case loop_body (Some h) (it\<lparr>write_raises := False\<rparr>) s of
        (c, s', es) \<Rightarrow> (c, s', filter (\<lambda>e. \<not> serial_effect e) es))"
proof (cases "grabbed it")
  case None
  then show ?thesis by (simp add: loop_body_def)
next
  case (Some fr)
  obtain s1 es1 err where t: "track_step (Some h) fr (tracked it) False s = (s1, es1, err)"
    by (cases "track_step (Some h) fr (tracked it) False s") auto
  then have t0: "track_step None fr (tracked it) (write_raises it) s =
      (s1, filter (\<lambda>e. \<not> serial_effect e) es1, err)"
    by (simp add: track_step_no_serial [of fr "tracked it" "write_raises it" s h])
  obtain s2 es2 where c: "callbacks (map (\<lambda>(ev, x, y, r). (ev, x, y, fr, r)) (events it)) s1 = (s2, es2)"
    by (cases "callbacks (map (\<lambda>(ev, x, y, r). (ev, x, y, fr, r)) (events it)) s1") auto
  have f2: "filter (\<lambda>e. \<not> serial_effect e) es2 = es2"
    using filter_callbacks [OF c] .
  show ?thesis
    by (cases err) (simp_all add: loop_body_def Some t t0 c f2 Let_def)
qed

lemma run_loop_no_serial:
  "run_loop None its s =
     (case run_loop (Some h) (writes_succeed its) s of
        (c, s', es) \<Rightarrow> (c, s', filter (\<lambda>e. \<not> serial_effect e) es))"
proof (induction its arbitrary: s)
  case Nil
  then show ?case by (simp add: writes_succeed_def)
next
  case (Cons it its)
  obtain c s1 es1 where b: "loop_body (Some h) (it\<lparr>write_raises := False\<rparr>) s = (c, s1, es1)"
    by (cases "loop_body (Some h) (it\<lparr>write_raises := False\<rparr>) s") auto
  then have b0: "loop_body None it s = (c, s1, filter (\<lambda>e. \<not> serial_effect e) es1)"
    by (simp add: loop_body_no_serial [of it s h])
  obtain c2 s2 es2 where r: "run_loop (Some h) (writes_succeed its) s1 = (c2, s2, es2)"
    by (cases "run_loop (Some h) (writes_succeed its) s1") auto
  then have r0: "run_loop None its s1 = (c2, s2, filter (\<lambda>e. \<not> serial_effect e) es2)"
    by (simp add: Cons.IH [of s1])
  have ws: "writes_succeed (it # its) = it\<lparr>write_raises := False\<rparr> # writes_succeed its"
    by (simp add: writes_succeed_def)
  show ?case
    by (cases c) (simp_all add: ws b b0 r r0)
qed

text \<open>
  C7. When the serial port did not open, the whole run, over every iteration,
  contains no write to the port and no other call on it, and it ends exactly as the
  same run ends with a port that opened and on which every write succeeds:
  the missing connection adds no exception.
\<close>

theorem no_serial_port_no_writes:
  assumes "\<not> serial_opens r"
  shows "(\<forall>e \<in> set (snd (main r)). \<not> serial_effect e) \<and>
         fst (main r) =
           fst (main (r\<lparr>serial_opens := True, iterations := writes_succeed (iterations r)\<rparr>)) \<and>
         snd (main r) =
           filter (\<lambda>e. \<not> serial_effect e)
             (snd (main (r\<lparr>serial_opens := True, iterations := writes_succeed (iterations r)\<rparr>)))"
proof (cases "camera_opens r")
  case False
  with assms show ?thesis by (simp add: main_def)
next
  case True
  obtain c s es where l: "run_loop (Some Serial) (writes_succeed (iterations r)) initial_state = (c, s, es)"
    by (cases "run_loop (Some Serial) (writes_succeed (iterations r)) initial_state") auto
  then have l0: "run_loop None (iterations r) initial_state =
      (c, s, filter (\<lambda>e. \<not> serial_effect e) es)"
    by (simp add: run_loop_no_serial [of "iterations r" initial_state Serial])
  show ?thesis
    using assms True by (cases c) (simp_all add: main_def l l0)
qed

section \<open>Rounding to binary64\<close>

lemma bit_length_nonneg: "0 \<le> bit_length n"
proof (induction n rule: bit_length.induct)
  case (1 n)
  then show ?case by (subst bit_length.simps) simp
qed

lemma bit_length_le: "n < 2 ^ k \<Longrightarrow> bit_length n \<le> int k"
proof (induction k arbitrary: n)
  case 0
  then have "n \<le> 0" by simp
  then show ?case by (subst bit_length.simps) simp
next
  case (Suc k)
  show ?case
  proof (cases "n \<le> 0")
    case True
    then show ?thesis by (subst bit_length.simps) simp
  next
    case False
    define c :: int where "c = 2 ^ k"
    have "n < 2 * c" using Suc.prems by (simp add: c_def)
    then have "n div 2 < c" by linarith
    then have "bit_length (n div 2) \<le> int k" unfolding c_def by (rule Suc.IH)
    then show ?thesis using False by (subst bit_length.simps) simp
  qed
qed

lemma ilog2_less:
  assumes "0 < k" and "\<bar>x\<bar> < 2 ^ k"
  shows "ilog2 \<bar>x\<bar> < int k"
proof (cases "1 \<le> \<bar>x\<bar>")
  case True
  have "\<lfloor>\<bar>x\<bar>\<rfloor> < 2 ^ k" using assms(2) by (simp add: floor_less_iff)
  then have "bit_length \<lfloor>\<bar>x\<bar>\<rfloor> \<le> int k" by (rule bit_length_le)
  then show ?thesis using True by (simp add: ilog2_def)
next
  case False
  have "0 \<le> bit_length (\<lceil>1 / \<bar>x\<bar>\<rceil> - 1)" by (rule bit_length_nonneg)
  then show ?thesis using False assms(1) by (simp add: ilog2_def)
qed

lemma expo_le:
  assumes "0 < k" and "\<bar>x\<bar> < 2 ^ k"
  shows "expo x \<le> int k - 1"
  using ilog2_less [OF assms] by (simp add: expo_def)

lemma ulp_pos: "0 < ulp x"
  by (simp add: ulp_def)

lemma ulp_minus: "ulp (- x) = ulp x"
  by (simp add: ulp_def expo_def)

lemma rne_of_int: "rne (of_int n) = n"
  by (simp add: rne_def)

lemma rne_le:
  assumes "m \<le> of_int N"
  shows "rne m \<le> N"
proof -
  have f: "\<lfloor>m\<rfloor> \<le> N" using assms by (simp add: floor_le_iff)
  show ?thesis
  proof (cases "m - of_int \<lfloor>m\<rfloor> < 1 / 2")
    case True
    then show ?thesis using f by (simp add: rne_def)
  next
    case False
    then have "of_int \<lfloor>m\<rfloor> < m" by simp
    with assms have "(of_int \<lfloor>m\<rfloor> :: rat) < of_int N" by simp
    then have "\<lfloor>m\<rfloor> < N" by (simp only: of_int_less_iff)
    then show ?thesis by (simp add: rne_def Let_def)
  qed
qed

lemma rne_nonneg: "0 \<le> m \<Longrightarrow> 0 \<le> rne m"
  by (simp add: rne_def Let_def)

lemma round_binary64_minus: "round_binary64 (- x) = - round_binary64 x"
  by (simp add: round_binary64_def ulp_minus)

lemma round_binary64_zero: "round_binary64 0 = 0"
  by (simp add: round_binary64_def)

lemma round_exact:
  assumes "\<bar>x\<bar> = of_int N * ulp x"
  shows "round_binary64 x = x"
proof -
  have "\<bar>x\<bar> / ulp x = of_int N" using assms ulp_pos [of x] by simp
  then have "round_binary64 x = sgn x * \<bar>x\<bar>"
    using assms by (simp add: round_binary64_def rne_of_int)
  then show ?thesis by (simp add: mult_sgn_abs)
qed

lemma round_abs_le:
  assumes "\<bar>x\<bar> \<le> of_int N * ulp x"
  shows "\<bar>round_binary64 x\<bar> \<le> of_int N * ulp x"
proof (cases "x = 0")
  case True
  then show ?thesis using assms by (simp add: round_binary64_zero)
next
  case False
  have u: "0 < ulp x" by (rule ulp_pos)
  have "\<bar>x\<bar> / ulp x \<le> of_int N" using assms u by (simp add: pos_divide_le_eq)
  then have r: "rne (\<bar>x\<bar> / ulp x) \<le> N" by (rule rne_le)
  have n: "0 \<le> rne (\<bar>x\<bar> / ulp x)" using u by (intro rne_nonneg) simp
  have "\<bar>round_binary64 x\<bar> = of_int (rne (\<bar>x\<bar> / ulp x)) * ulp x"
    using False n u by (simp add: round_binary64_def abs_mult)
  also have "\<dots> \<le> of_int N * ulp x" using r u by simp
  finally show ?thesis .
qed

lemma dyadic_on_grid:
  assumes "expo x \<le> 52 - int k"
  shows "of_int a / 2 ^ k = of_int (a * 2 ^ nat (52 - int k - expo x)) * ulp x"
proof -
  define j where "j = nat (52 - int k - expo x)"
  have e: "expo x - 52 = - int (j + k)" using assms by (simp add: j_def)
  have "(2::rat) powi (- int (j + k)) = inverse (2 powi int (j + k))"
    by (rule power_int_minus)
  also have "\<dots> = inverse (2 ^ (j + k))"
    by (simp only: power_int_of_nat)
  finally have "ulp x = 1 / 2 ^ (j + k)"
    unfolding ulp_def e by (simp only: inverse_eq_divide)
  then show ?thesis by (simp add: j_def [symmetric] power_add)
qed

lemma round_dyadic:
  assumes "k \<le> 52" and "\<bar>of_int a / 2 ^ k :: rat\<bar> < 2 ^ (53 - k)"
  shows "round_binary64 (of_int a / 2 ^ k) = of_int a / 2 ^ k"
proof -
  let ?x = "of_int a / 2 ^ k :: rat"
  have "expo ?x \<le> int (53 - k) - 1" using assms by (intro expo_le) simp_all
  then have e: "expo ?x \<le> 52 - int k" using assms(1) by simp
  define N where "N = \<bar>a\<bar> * 2 ^ nat (52 - int k - expo ?x)"
  have "\<bar>?x\<bar> = of_int \<bar>a\<bar> / 2 ^ k" by simp
  also have "\<dots> = of_int N * ulp ?x" unfolding N_def by (rule dyadic_on_grid [OF e])
  finally show ?thesis by (rule round_exact)
qed

lemma round_le_dyadic:
  assumes "k \<le> 52" and "of_int b / 2 ^ k < (2::rat) ^ (53 - k)" and "\<bar>x\<bar> \<le> of_int b / 2 ^ k"
  shows "\<bar>round_binary64 x\<bar> \<le> of_int b / 2 ^ k"
proof -
  have "\<bar>x\<bar> < 2 ^ (53 - k)" using assms(2,3) by simp
  then have "expo x \<le> int (53 - k) - 1" using assms(1) by (intro expo_le) simp_all
  then have e: "expo x \<le> 52 - int k" using assms(1) by simp
  define N where "N = b * 2 ^ nat (52 - int k - expo x)"
  have g: "of_int b / 2 ^ k = of_int N * ulp x" unfolding N_def by (rule dyadic_on_grid [OF e])
  have "\<bar>x\<bar> \<le> of_int N * ulp x" using assms(3) g by simp
  then have "\<bar>round_binary64 x\<bar> \<le> of_int N * ulp x" by (rule round_abs_le)
  with g show ?thesis by simp
qed

lemma to_float_dyadic:
  assumes "k \<le> 52" and "\<bar>of_int a / 2 ^ k :: rat\<bar> < 2 ^ (53 - k)"
  shows "to_float (of_int a / 2 ^ k) = Finite (of_int a / 2 ^ k)"
proof -
  have "(2::rat) ^ (53 - k) \<le> 2 ^ 1024" by (rule power_increasing) simp_all
  with assms(2) have "\<bar>of_int a / 2 ^ k :: rat\<bar> < 2 ^ 1024" by (rule less_le_trans)
  then show ?thesis by (simp only: to_float_def round_dyadic [OF assms] Let_def if_True)
qed

lemma to_float_minus: "to_float (- x) = float_neg (to_float x)"
  by (simp add: to_float_def round_binary64_minus Let_def)

section \<open>The command arithmetic\<close>

lemma to_float_int:
  assumes "\<bar>n\<bar> < 2 ^ 53"
  shows "to_float (of_int n) = Finite (of_int n)"
proof -
  have "rat_of_int \<bar>n\<bar> < rat_of_int (2 ^ 53)" using assms by (simp only: of_int_less_iff)
  then have "\<bar>of_int n / 2 ^ 0 :: rat\<bar> < 2 ^ (53 - 0)" by simp
  then have "to_float (of_int n / 2 ^ 0) = Finite (of_int n / 2 ^ 0)"
    by (intro to_float_dyadic) simp_all
  then show ?thesis by simp
qed

lemma to_float_half:
  assumes "\<bar>n\<bar> < 2 ^ 53"
  shows "to_float (of_int n / 2) = Finite (of_int n / 2)"
proof -
  have "rat_of_int \<bar>n\<bar> < rat_of_int (2 ^ 53)" using assms by (simp only: of_int_less_iff)
  then have "\<bar>of_int n / 2 ^ 1 :: rat\<bar> < 2 ^ (53 - 1)" by simp
  then have "to_float (of_int n / 2 ^ 1) = Finite (of_int n / 2 ^ 1)"
    by (intro to_float_dyadic) simp_all
  then show ?thesis by simp
qed

lemma to_float_zero: "to_float 0 = Finite 0"
  by (simp add: to_float_def round_binary64_zero)

lemma float_of_int_exact:
  "\<bar>n\<bar> < 2 ^ 53 \<Longrightarrow> float_of_int n = Inr (Finite (of_int n))"
  by (simp add: float_of_int_def to_float_int)

lemma half_exact:
  "int n < 2 ^ 53 \<Longrightarrow> int_truediv (int n) 2 = Inr (Finite (of_int (int n) / 2))"
  using to_float_half [of "int n"] by (simp add: int_truediv_def)

lemma halves_cancel: "(a / 2) / (b / 2) = a / (b::rat)"
  by simp

lemma normalized_error_exact:
  assumes "0 < n" and "int n < 2 ^ 53" and "\<bar>c\<bar> < 2 ^ 53" and "\<bar>2 * c - int n\<bar> < 2 ^ 53"
  shows "normalized_error c n = Inr (to_float (of_int (2 * c - int n) / of_int (int n)))"
proof -
  have h: "int_truediv (int n) 2 = Inr (Finite (of_int (int n) / 2))"
    using assms(2) by (rule half_exact)
  have cf: "float_of_int c = Inr (Finite (of_int c))"
    using assms(3) by (rule float_of_int_exact)
  have eq: "rat_of_int c - of_int (int n) / 2 = of_int (2 * c - int n) / 2" by simp
  have sub: "float_sub (Finite (of_int c)) (Finite (of_int (int n) / 2)) =
      Finite (of_int (2 * c - int n) / 2)"
    by (simp only: float_sub.simps eq to_float_half [OF assms(4)])
  have nz: "rat_of_int (int n) / 2 \<noteq> 0" using assms(1) by simp
  have q: "(rat_of_int (2 * c - int n) / 2) / (of_int (int n) / 2) =
      of_int (2 * c - int n) / of_int (int n)" by (rule halves_cancel)
  have "float_div (Finite (of_int (2 * c - int n) / 2)) (Finite (of_int (int n) / 2)) =
      Inr (to_float (of_int (2 * c - int n) / of_int (int n)))"
    using nz by (simp only: float_div.simps q if_False)
  then show ?thesis
    by (simp only: normalized_error_def int_sub_float_def h cf sub sum.case)
qed

lemma float_thirty: "float_of_int MAX_DEFLECTION = Inr (Finite 30)"
  using float_of_int_exact [of 30] by (simp add: MAX_DEFLECTION_def)

lemma fin_Finite: "fin (Finite r) = int_of_float (to_float (r * 30))"
  by (simp add: fin_def float_mul_int_def float_thirty)

lemma py_int_minus: "py_int (- v) = - py_int v"
  by (auto simp add: py_int_def ceiling_def)

lemma int_of_float_neg:
  "int_of_float (float_neg p) = (case int_of_float p of Inl e \<Rightarrow> Inl e | Inr a \<Rightarrow> Inr (- a))"
  by (cases p) (simp_all add: py_int_minus)

lemma fin_neg:
  "fin (float_neg v) = (case fin v of Inl e \<Rightarrow> Inl e | Inr a \<Rightarrow> Inr (- a))"
proof (cases v)
  case (Finite r)
  have "to_float (- r * 30) = float_neg (to_float (r * 30))"
    using to_float_minus [of "r * 30"] by simp
  then show ?thesis by (simp add: Finite fin_Finite int_of_float_neg)
qed (simp_all add: fin_def float_mul_int_def float_thirty)

text \<open>
  C10. Whenever a command is computed, whatever the reported box and the frame,
  \<open>fin_left\<close> is the negation of \<open>fin_right\<close> and \<open>fin_top\<close> the negation of
  \<open>fin_bottom\<close>.
\<close>

theorem command_antisymmetric:
  assumes "compute_command bb fr = Inr d"
  shows "fin_left d = - fin_right d \<and> fin_top d = - fin_bottom d"
proof -
  obtain cx cy where c: "box_center bb = (cx, cy)" by (cases "box_center bb") auto
  from assms c obtain ex where ex: "normalized_error cx (frame_w fr) = Inr ex"
    by (auto simp add: compute_command_def split: sum.splits)
  from assms c ex obtain ey where ey: "normalized_error cy (frame_h fr) = Inr ey"
    by (auto simp add: compute_command_def split: sum.splits)
  from assms c ex ey obtain r where r: "fin ex = Inr r"
    by (auto simp add: compute_command_def fin_neg split: sum.splits)
  from assms c ex ey r obtain b where b: "fin ey = Inr b"
    by (auto simp add: compute_command_def fin_neg split: sum.splits)
  from assms have "d = \<lparr>fin_left = - r, fin_right = r, fin_top = - b, fin_bottom = b\<rparr>"
    by (simp add: compute_command_def c ex ey r b fin_neg)
  then show ?thesis by simp
qed

lemma floor_rat_numeral: "\<lfloor>numeral a / numeral b :: rat\<rfloor> = numeral a div numeral b"
  using floor_divide_of_int_eq [of "numeral a" "numeral b", where ?'a = rat] by simp

lemma py_int_numeral: "py_int (numeral a / numeral b) = numeral a div numeral b"
  by (simp add: py_int_def floor_rat_numeral)

lemma example_command:
  "compute_command (980, 220, 40, 40) \<lparr>frame_h = 480, frame_w = 640, pixels = p\<rparr> =
     Inr \<lparr>fin_left = - 63, fin_right = 63, fin_top = 0, fin_bottom = 0\<rparr>"
proof -
  have c: "box_center (980, 220, 40, 40) = (1000, 240)"
    by (simp add: box_center_def py_int_def)
  have ex: "normalized_error 1000 640 = Inr (Finite (17 / 8))"
    using normalized_error_exact [of 640 1000] to_float_dyadic [of 3 17] by simp
  have ey: "normalized_error 240 480 = Inr (Finite 0)"
    using normalized_error_exact [of 480 240] by (simp add: to_float_zero)
  have f1: "fin (Finite (17 / 8)) = Inr 63"
    using to_float_dyadic [of 2 255] by (simp add: fin_Finite py_int_numeral)
  have f1n: "fin (Finite (- (17 / 8))) = Inr (- 63)"
    using fin_neg [of "Finite (17 / 8)"] by (simp add: f1)
  have f0: "fin (Finite 0) = Inr 0"
    by (simp add: fin_Finite to_float_zero py_int_def)
  show ?thesis
    by (simp add: compute_command_def c ex ey f1 f1n f0)
qed

theorem command_antisymmetric_witness:
  "compute_command (980, 220, 40, 40) \<lparr>frame_h = 480, frame_w = 640, pixels = []\<rparr> =
     Inr \<lparr>fin_left = - 63, fin_right = 63, fin_top = 0, fin_bottom = 0\<rparr> \<and>
   fin_left \<lparr>fin_left = - 63, fin_right = 63, fin_top = 0, fin_bottom = 0\<rparr> =
     - fin_right \<lparr>fin_left = - 63, fin_right = 63, fin_top = 0, fin_bottom = 0\<rparr> \<and>
   fin_top \<lparr>fin_left = - 63, fin_right = 63, fin_top = 0, fin_bottom = 0\<rparr> =
     - fin_bottom \<lparr>fin_left = - 63, fin_right = 63, fin_top = 0, fin_bottom = 0\<rparr>"
  using command_antisymmetric [OF example_command [of "[]"]] example_command [of "[]"]
  by simp

lemma fin_zero: "fin (Finite 0) = Inr 0"
  by (simp add: fin_Finite to_float_zero py_int_def)

lemma fin_one: "fin (Finite 1) = Inr 30"
  using to_float_int [of 30] by (simp add: fin_Finite py_int_def)

lemma fin_minus_one: "fin (Finite (- 1)) = Inr (- 30)"
  using fin_neg [of "Finite 1"] by (simp add: fin_one)

lemma error_at_centre:
  assumes "0 < n" and "int n < 2 ^ 53" and "2 * c = int n"
  shows "normalized_error c n = Inr (Finite 0)"
proof -
  have "\<bar>c\<bar> < 2 ^ 53" using assms by linarith
  moreover have "\<bar>2 * c - int n\<bar> < 2 ^ 53" using assms(3) by simp
  ultimately have "normalized_error c n = Inr (to_float (of_int (2 * c - int n) / of_int (int n)))"
    using assms(1,2) by (intro normalized_error_exact)
  then show ?thesis by (simp add: assms(3) to_float_zero)
qed

lemma error_at_edge:
  assumes "0 < n" and "int n < 2 ^ 53"
  shows "normalized_error (int n) n = Inr (Finite 1)"
proof -
  have "\<bar>int n\<bar> < 2 ^ 53" using assms by simp
  moreover have "\<bar>2 * int n - int n\<bar> < 2 ^ 53" using assms by simp
  ultimately have "normalized_error (int n) n =
      Inr (to_float (of_int (2 * int n - int n) / of_int (int n)))"
    using assms by (intro normalized_error_exact)
  moreover have "rat_of_int (2 * int n - int n) / of_int (int n) = 1" using assms(1) by simp
  ultimately show ?thesis using to_float_int [of 1] by simp
qed

lemma format_zero:
  "format_command \<lparr>fin_left = 0, fin_right = 0, fin_top = 0, fin_bottom = 0\<rparr> =
     ''<0,0,0,0>'' @ [CHR 0x0A]"
  by (simp add: format_command_def str_int_def str_nat.simps)

text \<open>
  C5. On a frame whose two dimensions are positive (and below \<open>2^53\<close>, where a
  float still holds every integer): a box whose center is exactly the frame
  center has both normalized errors equal to 0, its command is \<open>(0, 0, 0, 0)\<close>
  and, with the tracker active and the port open, the line written is
  \<open><0,0,0,0>\<close> followed by a newline; a box whose center is on the right edge has
  \<open>error_x = 1\<close>, and a command computed for it has \<open>fin_left = -30\<close> and
  \<open>fin_right = 30\<close>.
\<close>

theorem centre_and_right_edge_commands:
  assumes "0 < frame_w fr" and "int (frame_w fr) < 2 ^ 53"
    and "0 < frame_h fr" and "int (frame_h fr) < 2 ^ 53"
  shows "(box_center bb = (cx, cy) \<and> 2 * cx = int (frame_w fr) \<and> 2 * cy = int (frame_h fr) \<longrightarrow>
            normalized_error cx (frame_w fr) = Inr (Finite 0) \<and>
            normalized_error cy (frame_h fr) = Inr (Finite 0) \<and>
            compute_command bb fr =
              Inr \<lparr>fin_left = 0, fin_right = 0, fin_top = 0, fin_bottom = 0\<rparr> \<and>
            (tracking_active s \<and> tracker s \<noteq> None \<longrightarrow>
               track_step (Some h) fr (True, bb) False s =
                 (s, [TrackerUpdate fr, SerialWrite (''<0,0,0,0>'' @ [CHR 0x0A])], None))) \<and>
         (box_center bb' = (int (frame_w fr), cy') \<and> compute_command bb' fr = Inr d \<longrightarrow>
            normalized_error (int (frame_w fr)) (frame_w fr) = Inr (Finite 1) \<and>
            fin_left d = - 30 \<and> fin_right d = 30)"
proof (intro conjI impI)
  assume a: "box_center bb = (cx, cy) \<and> 2 * cx = int (frame_w fr) \<and> 2 * cy = int (frame_h fr)"
  show ex: "normalized_error cx (frame_w fr) = Inr (Finite 0)"
    using a assms(1,2) by (intro error_at_centre) simp_all
  show ey: "normalized_error cy (frame_h fr) = Inr (Finite 0)"
    using a assms(3,4) by (intro error_at_centre) simp_all
  show cmd: "compute_command bb fr =
      Inr \<lparr>fin_left = 0, fin_right = 0, fin_top = 0, fin_bottom = 0\<rparr>"
    using a by (simp add: compute_command_def ex ey fin_zero)
  assume "tracking_active s \<and> tracker s \<noteq> None"
  then show "track_step (Some h) fr (True, bb) False s =
      (s, [TrackerUpdate fr, SerialWrite (''<0,0,0,0>'' @ [CHR 0x0A])], None)"
    using format_zero by (simp add: track_step_def cmd)
next
  assume b: "box_center bb' = (int (frame_w fr), cy') \<and> compute_command bb' fr = Inr d"
  show ex: "normalized_error (int (frame_w fr)) (frame_w fr) = Inr (Finite 1)"
    using assms(1,2) by (rule error_at_edge)
  from b show "fin_left d = - 30"
    by (auto simp add: compute_command_def ex fin_one fin_minus_one split: sum.splits)
  from b show "fin_right d = 30"
    by (auto simp add: compute_command_def ex fin_one fin_minus_one split: sum.splits)
qed

lemma example_edge_command:
  "compute_command (620, 220, 40, 40) \<lparr>frame_h = 480, frame_w = 640, pixels = p\<rparr> =
     Inr \<lparr>fin_left = - 30, fin_right = 30, fin_top = 0, fin_bottom = 0\<rparr>"
proof -
  have c: "box_center (620, 220, 40, 40) = (640, 240)"
    by (simp add: box_center_def py_int_def)
  have ex: "normalized_error 640 640 = Inr (Finite 1)"
    using error_at_edge [of 640] by simp
  have ey: "normalized_error 240 480 = Inr (Finite 0)"
    using error_at_centre [of 480 240] by simp
  show ?thesis
    by (simp add: compute_command_def c ex ey fin_one fin_minus_one fin_zero)
qed

theorem centre_and_right_edge_commands_witness:
  "0 < frame_w \<lparr>frame_h = 480, frame_w = 640, pixels = []\<rparr> \<and>
   int (frame_w \<lparr>frame_h = 480, frame_w = 640, pixels = []\<rparr>) < 2 ^ 53 \<and>
   box_center (300, 220, 40, 40) = (320, 240) \<and>
   compute_command (300, 220, 40, 40) \<lparr>frame_h = 480, frame_w = 640, pixels = []\<rparr> =
     Inr \<lparr>fin_left = 0, fin_right = 0, fin_top = 0, fin_bottom = 0\<rparr> \<and>
   track_step (Some Serial) \<lparr>frame_h = 480, frame_w = 640, pixels = []\<rparr>
     (True, (300, 220, 40, 40)) False
     \<lparr>drawing = False, start_point = Some (300, 220), end_point = Some (340, 260),
      tracker = Some (TrackerCSRT \<lparr>frame_h = 480, frame_w = 640, pixels = []\<rparr> (300, 220, 40, 40)),
      tracking_active = True\<rparr> =
     (\<lparr>drawing = False, start_point = Some (300, 220), end_point = Some (340, 260),
       tracker = Some (TrackerCSRT \<lparr>frame_h = 480, frame_w = 640, pixels = []\<rparr> (300, 220, 40, 40)),
       tracking_active = True\<rparr>,
      [TrackerUpdate \<lparr>frame_h = 480, frame_w = 640, pixels = []\<rparr>,
       SerialWrite (''<0,0,0,0>'' @ [CHR 0x0A])], None) \<and>
   box_center (620, 220, 40, 40) = (640, 240) \<and>
   compute_command (620, 220, 40, 40) \<lparr>frame_h = 480, frame_w = 640, pixels = []\<rparr> =
     Inr \<lparr>fin_left = - 30, fin_right = 30, fin_top = 0, fin_bottom = 0\<rparr> \<and>
   normalized_error 640 640 = Inr (Finite 1)"
  using centre_and_right_edge_commands
    [where fr = "\<lparr>frame_h = 480, frame_w = 640, pixels = []\<rparr>"
       and bb = "(300, 220, 40, 40)" and cx = 320 and cy = 240
       and s = "\<lparr>drawing = False, start_point = Some (300, 220), end_point = Some (340, 260),
          tracker = Some (TrackerCSRT \<lparr>frame_h = 480, frame_w = 640, pixels = []\<rparr> (300, 220, 40, 40)),
          tracking_active = True\<rparr>"
       and h = Serial and bb' = "(620, 220, 40, 40)" and cy' = 240
       and d = "\<lparr>fin_left = - 30, fin_right = 30, fin_top = 0, fin_bottom = 0\<rparr>"]
    example_edge_command [of "[]"]
  by (simp add: box_center_def py_int_def)

section \<open>The size of the command\<close>

lemma format_example:
  "format_command \<lparr>fin_left = - 63, fin_right = 63, fin_top = 0, fin_bottom = 0\<rparr> =
     ''<-63,63,0,0>'' @ [CHR 0x0A]"
  by (simp add: format_command_def str_int_def str_nat.simps)

text \<open>
  C3, as stated, fails: on a 640 by 480 frame the box \<open>(980, 220, 40, 40)\<close>, whose
  center \<open>(1000, 240)\<close> is to the right of the frame, gives \<open>error_x = 2.125\<close> and the
  line \<open><-63,63,0,0>\<close> is written to the port.
\<close>

theorem out_of_frame_command_exceeds_30:
  "track_step (Some Serial) \<lparr>frame_h = 480, frame_w = 640, pixels = []\<rparr>
     (True, (980, 220, 40, 40)) False
     \<lparr>drawing = False, start_point = Some (300, 220), end_point = Some (340, 260),
      tracker = Some (TrackerCSRT \<lparr>frame_h = 480, frame_w = 640, pixels = []\<rparr> (300, 220, 40, 40)),
      tracking_active = True\<rparr> =
     (\<lparr>drawing = False, start_point = Some (300, 220), end_point = Some (340, 260),
       tracker = Some (TrackerCSRT \<lparr>frame_h = 480, frame_w = 640, pixels = []\<rparr> (300, 220, 40, 40)),
       tracking_active = True\<rparr>,
      [TrackerUpdate \<lparr>frame_h = 480, frame_w = 640, pixels = []\<rparr>,
       SerialWrite (''<-63,63,0,0>'' @ [CHR 0x0A])], None) \<and>
   compute_command (980, 220, 40, 40) \<lparr>frame_h = 480, frame_w = 640, pixels = []\<rparr> =
     Inr \<lparr>fin_left = - 63, fin_right = 63, fin_top = 0, fin_bottom = 0\<rparr> \<and>
   \<not> \<bar>fin_right \<lparr>fin_left = - 63, fin_right = 63, fin_top = 0, fin_bottom = 0\<rparr>\<bar> \<le> 30"
  by (simp add: track_step_def example_command format_example)

lemma py_int_abs_le:
  assumes "\<bar>v\<bar> \<le> of_int N"
  shows "\<bar>py_int v\<bar> \<le> N"
proof (cases "0 \<le> v")
  case True
  then have "0 \<le> \<lfloor>v\<rfloor>" by simp
  moreover have "\<lfloor>v\<rfloor> \<le> N" using assms True by (simp add: floor_le_iff)
  ultimately show ?thesis using True by (simp add: py_int_def)
next
  case False
  then have "\<lceil>v\<rceil> \<le> 0" by (simp add: ceiling_le_iff)
  moreover have "- N \<le> \<lceil>v\<rceil>" using assms False by (simp add: le_ceiling_iff)
  ultimately show ?thesis using False by (simp add: py_int_def)
qed

lemma to_float_bounded:
  assumes "\<bar>x\<bar> \<le> of_int b" and "b < 2 ^ 53"
  shows "\<exists>r. to_float x = Finite r \<and> \<bar>r\<bar> \<le> of_int b"
proof -
  have "rat_of_int b < rat_of_int (2 ^ 53)" using assms(2) by (simp only: of_int_less_iff)
  then have b53: "rat_of_int b < 2 ^ 53" by simp
  then have "rat_of_int b / 2 ^ 0 < 2 ^ (53 - 0)" by simp
  moreover have "\<bar>x\<bar> \<le> of_int b / 2 ^ 0" using assms(1) by simp
  ultimately have "\<bar>round_binary64 x\<bar> \<le> of_int b / 2 ^ 0"
    by (intro round_le_dyadic) simp_all
  then have r: "\<bar>round_binary64 x\<bar> \<le> of_int b" by simp
  have "(2::rat) ^ 53 \<le> 2 ^ 1024" by (rule power_increasing) simp_all
  with b53 have "rat_of_int b < 2 ^ 1024" by (rule less_le_trans)
  with r have "\<bar>round_binary64 x\<bar> < 2 ^ 1024" by (rule le_less_trans)
  then have "to_float x = Finite (round_binary64 x)"
    by (simp only: to_float_def Let_def if_True)
  with r show ?thesis by blast
qed

lemma error_in_frame:
  assumes "0 < n" and "int n < 2 ^ 53" and "0 \<le> c" and "c \<le> int n"
  shows "\<exists>r. normalized_error c n = Inr (Finite r) \<and> \<bar>r\<bar> \<le> 1"
proof -
  have c53: "\<bar>c\<bar> < 2 ^ 53" using assms by linarith
  have d: "\<bar>2 * c - int n\<bar> \<le> int n" using assms by linarith
  then have d53: "\<bar>2 * c - int n\<bar> < 2 ^ 53" using assms(2) by linarith
  have ne: "normalized_error c n = Inr (to_float (of_int (2 * c - int n) / of_int (int n)))"
    using assms(1,2) c53 d53 by (rule normalized_error_exact)
  define a where "a = rat_of_int (2 * c - int n)"
  define b where "b = rat_of_int (int n)"
  have "rat_of_int \<bar>2 * c - int n\<bar> \<le> rat_of_int (int n)"
    using d by (simp only: of_int_le_iff)
  then have ab: "\<bar>a\<bar> \<le> b" by (simp add: a_def b_def)
  have b0: "0 < b" using assms(1) by (simp add: b_def)
  have "\<bar>a / b\<bar> = \<bar>a\<bar> / b" using b0 by simp
  also have "\<dots> \<le> 1" using ab b0 by simp
  finally have "\<bar>a / b\<bar> \<le> of_int 1" by simp
  then obtain r where "to_float (a / b) = Finite r" and "\<bar>r\<bar> \<le> of_int 1"
    using to_float_bounded [of "a / b" 1] by auto
  then show ?thesis using ne by (simp add: a_def b_def)
qed

lemma fin_bounded:
  assumes "\<bar>r\<bar> \<le> 1"
  shows "\<exists>v. fin (Finite r) = Inr v \<and> \<bar>v\<bar> \<le> 30"
proof -
  have "\<bar>r * 30\<bar> \<le> of_int 30" using assms by (simp add: abs_mult)
  then obtain p where p: "to_float (r * 30) = Finite p" and pb: "\<bar>p\<bar> \<le> of_int 30"
    using to_float_bounded [of "r * 30" 30] by auto
  have "\<bar>py_int p\<bar> \<le> 30" using pb by (rule py_int_abs_le)
  then show ?thesis by (simp add: fin_Finite p)
qed

text \<open>
  C3, amended. For a box whose center lies within the frame
  (\<open>0 \<le> center_x \<le> frame_w\<close> and \<open>0 \<le> center_y \<le> frame_h\<close>, on a frame with positive
  dimensions below \<open>2^53\<close>) the command is computed and each of its four
  components has magnitude at most 30.
\<close>

theorem in_frame_command_within_30:
  assumes "0 < frame_w fr" and "int (frame_w fr) < 2 ^ 53"
    and "0 < frame_h fr" and "int (frame_h fr) < 2 ^ 53"
    and "box_center bb = (cx, cy)"
    and "0 \<le> cx" and "cx \<le> int (frame_w fr)"
    and "0 \<le> cy" and "cy \<le> int (frame_h fr)"
  shows "\<exists>d. compute_command bb fr = Inr d \<and>
             \<bar>fin_left d\<bar> \<le> 30 \<and> \<bar>fin_right d\<bar> \<le> 30 \<and>
             \<bar>fin_top d\<bar> \<le> 30 \<and> \<bar>fin_bottom d\<bar> \<le> 30"
proof -
  obtain rx where ex: "normalized_error cx (frame_w fr) = Inr (Finite rx)" and bx: "\<bar>rx\<bar> \<le> 1"
    using error_in_frame [OF assms(1,2,6,7)] by blast
  obtain ry where ey: "normalized_error cy (frame_h fr) = Inr (Finite ry)" and "by": "\<bar>ry\<bar> \<le> 1"
    using error_in_frame [OF assms(3,4,8,9)] by blast
  obtain r where r: "fin (Finite rx) = Inr r" and rb: "\<bar>r\<bar> \<le> 30"
    using fin_bounded [OF bx] by blast
  obtain b where b: "fin (Finite ry) = Inr b" and bb: "\<bar>b\<bar> \<le> 30"
    using fin_bounded [OF "by"] by blast
  have l: "fin (Finite (- rx)) = Inr (- r)"
    using fin_neg [of "Finite rx"] by (simp add: r)
  have t: "fin (Finite (- ry)) = Inr (- b)"
    using fin_neg [of "Finite ry"] by (simp add: b)
  have "compute_command bb fr =
      Inr \<lparr>fin_left = - r, fin_right = r, fin_top = - b, fin_bottom = b\<rparr>"
    by (simp add: compute_command_def assms(5) ex ey r b l t)
  then show ?thesis using rb bb by simp
qed

theorem in_frame_command_within_30_witness:
  "0 < frame_w \<lparr>frame_h = 480, frame_w = 640, pixels = []\<rparr> \<and>
   int (frame_w \<lparr>frame_h = 480, frame_w = 640, pixels = []\<rparr>) < 2 ^ 53 \<and>
   0 < frame_h \<lparr>frame_h = 480, frame_w = 640, pixels = []\<rparr> \<and>
   int (frame_h \<lparr>frame_h = 480, frame_w = 640, pixels = []\<rparr>) < 2 ^ 53 \<and>
   box_center (80, 380, 41, 40) = (100, 400) \<and>
   (0::int) \<le> 100 \<and> 100 \<le> int (frame_w \<lparr>frame_h = 480, frame_w = 640, pixels = []\<rparr>) \<and>
   (0::int) \<le> 400 \<and> 400 \<le> int (frame_h \<lparr>frame_h = 480, frame_w = 640, pixels = []\<rparr>) \<and>
   (\<exists>d. compute_command (80, 380, 41, 40) \<lparr>frame_h = 480, frame_w = 640, pixels = []\<rparr> = Inr d \<and>
        \<bar>fin_left d\<bar> \<le> 30 \<and> \<bar>fin_right d\<bar> \<le> 30 \<and> \<bar>fin_top d\<bar> \<le> 30 \<and> \<bar>fin_bottom d\<bar> \<le> 30)"
proof -
  have c: "box_center (80, 380, 41, 40) = (100, 400)"
    by (simp add: box_center_def py_int_def)
  show ?thesis
    using in_frame_command_within_30
      [where fr = "\<lparr>frame_h = 480, frame_w = 640, pixels = []\<rparr>"
         and bb = "(80, 380, 41, 40)" and cx = 100 and cy = 400] c
    by simp
qed

section \<open>The command formula\<close>

lemma py_int_trunc: "py_int v = trunc_toward_zero v"
  by (auto simp add: py_int_def trunc_toward_zero_def ceiling_def)

lemma half_trunc: "0 \<le> w \<Longrightarrow> trunc_toward_zero (of_int w / 2) = w div 2"
  using floor_divide_of_int_eq [of w 2, where ?'a = rat]
  by (simp add: trunc_toward_zero_def)

lemma round_le_pow2:
  assumes "\<bar>x\<bar> \<le> 2 ^ K"
  shows "\<bar>round_binary64 x\<bar> \<le> 2 ^ K"
proof -
  have "(2::rat) ^ K < 2 ^ (K + 1)" by simp
  with assms have "\<bar>x\<bar> < 2 ^ (K + 1)" by (rule le_less_trans)
  then have "expo x \<le> int (K + 1) - 1" by (intro expo_le) simp_all
  then have e: "expo x \<le> int K" by simp
  define j where "j = nat (int K + 52 - expo x)"
  have "(2::rat) powi (int j + (expo x - 52)) = 2 powi int j * 2 powi (expo x - 52)"
    by (rule power_int_add) simp
  moreover have "int j + (expo x - 52) = int K" using e by (simp add: j_def)
  ultimately have "(2::rat) powi int K = 2 powi int j * 2 powi (expo x - 52)" by simp
  then have g: "(2::rat) ^ K = of_int (2 ^ j) * ulp x"
    by (simp add: ulp_def)
  have "\<bar>x\<bar> \<le> of_int (2 ^ j) * ulp x" using assms g by simp
  then have "\<bar>round_binary64 x\<bar> \<le> of_int (2 ^ j) * ulp x" by (rule round_abs_le)
  with g show ?thesis by simp
qed

lemma to_float_pow2:
  assumes "\<bar>x\<bar> \<le> 2 ^ K" and "K < 1024"
  shows "to_float x = Finite (round_binary64 x)"
proof -
  have "\<bar>round_binary64 x\<bar> \<le> 2 ^ K" using assms(1) by (rule round_le_pow2)
  moreover have "(2::rat) ^ K < 2 ^ 1024"
    using assms(2) by (intro power_strict_increasing) simp_all
  ultimately have "\<bar>round_binary64 x\<bar> < 2 ^ 1024" by (rule le_less_trans)
  then show ?thesis by (simp only: to_float_def Let_def if_True)
qed

lemma fin_spec:
  assumes "\<bar>e\<bar> \<le> 2 ^ 53"
  shows "fin (Finite e) = Inr (spec_fin e)"
proof -
  have "\<bar>e * 30\<bar> \<le> 2 ^ 53 * 2 ^ 5"
    unfolding abs_mult using assms by (intro mult_mono) simp_all
  then have "\<bar>e * 30\<bar> \<le> 2 ^ 58" by simp
  then have "to_float (e * 30) = Finite (round_binary64 (e * 30))"
    by (rule to_float_pow2) simp
  then show ?thesis by (simp add: fin_Finite spec_fin_def py_int_trunc)
qed

lemma error_spec:
  assumes "0 < n" and "int n < 2 ^ 52" and "\<bar>c\<bar> < 2 ^ 51"
  shows "normalized_error c n = Inr (Finite (spec_error c n)) \<and> \<bar>spec_error c n\<bar> \<le> 2 ^ 53"
proof -
  have n53: "int n < 2 ^ 53" using assms(2) by simp
  have c53: "\<bar>c\<bar> < 2 ^ 53" using assms(3) by simp
  have d53: "\<bar>2 * c - int n\<bar> < 2 ^ 53" using assms by simp
  have ne: "normalized_error c n = Inr (to_float (of_int (2 * c - int n) / of_int (int n)))"
    using assms(1) n53 c53 d53 by (rule normalized_error_exact)
  define a where "a = rat_of_int (2 * c - int n)"
  define b where "b = rat_of_int (int n)"
  have q: "(rat_of_int c - of_nat n / 2) / (of_nat n / 2) = a / b"
    by (simp add: a_def b_def diff_divide_distrib)
  have "rat_of_int \<bar>2 * c - int n\<bar> < rat_of_int (2 ^ 53)"
    using d53 by (simp only: of_int_less_iff)
  then have a53: "\<bar>a\<bar> \<le> 2 ^ 53" by (simp add: a_def)
  have "1 \<le> int n" using assms(1) by simp
  then have "rat_of_int 1 \<le> rat_of_int (int n)" by (simp only: of_int_le_iff)
  then have b1: "1 \<le> b" by (simp add: b_def)
  have "\<bar>a / b\<bar> = \<bar>a\<bar> / b" using b1 by simp
  also have "\<dots> \<le> \<bar>a\<bar> / 1" using b1 by (intro divide_left_mono) simp_all
  finally have ab: "\<bar>a / b\<bar> \<le> 2 ^ 53" using a53 by simp
  then have tf: "to_float (a / b) = Finite (round_binary64 (a / b))"
    by (rule to_float_pow2) simp
  have rb: "\<bar>round_binary64 (a / b)\<bar> \<le> 2 ^ 53" using ab by (rule round_le_pow2)
  have se: "spec_error c n = round_binary64 (a / b)" by (simp only: spec_error_def q)
  show ?thesis using ne tf rb by (simp only: se a_def b_def)
qed

text \<open>
  C2. On a frame with positive dimensions, for a reported box with non-negative
  width and height (frame dimensions below \<open>2^52\<close> and center coordinates below
  \<open>2^51\<close> in magnitude, so that no float operation before the division rounds or
  overflows): the command is computed, and it is the one of the formula: center
  \<open>(x + w/2, y + h/2)\<close> with the halves truncated, \<open>error = (center - size/2) / (size/2)\<close>
  with the frame width for \<open>x\<close> and the frame height for \<open>y\<close>, \<open>fin_left\<close> and
  \<open>fin_top\<close> from \<open>-error * 30\<close>, \<open>fin_right\<close> and \<open>fin_bottom\<close> from \<open>error * 30\<close>, each
  truncated toward zero; with the tracker active and the port open this command
  is the line written.
\<close>

theorem command_follows_formula:
  assumes "0 < frame_w fr" and "int (frame_w fr) < 2 ^ 52"
    and "0 < frame_h fr" and "int (frame_h fr) < 2 ^ 52"
    and "0 \<le> py_int vw" and "0 \<le> py_int vh"
    and "\<bar>py_int vx + py_int vw div 2\<bar> < 2 ^ 51"
    and "\<bar>py_int vy + py_int vh div 2\<bar> < 2 ^ 51"
  shows "box_center (vx, vy, vw, vh) = spec_center (py_int vx, py_int vy, py_int vw, py_int vh) \<and>
         compute_command (vx, vy, vw, vh) fr =
           Inr (spec_command (py_int vx, py_int vy, py_int vw, py_int vh) fr) \<and>
         (tracking_active s \<and> tracker s \<noteq> None \<longrightarrow>
            track_step (Some h) fr (True, (vx, vy, vw, vh)) False s =
              (s, [TrackerUpdate fr,
                   SerialWrite (format_command
                     (spec_command (py_int vx, py_int vy, py_int vw, py_int vh) fr))], None))"
proof -
  define cx where "cx = py_int vx + py_int vw div 2"
  define cy where "cy = py_int vy + py_int vh div 2"
  have bc: "box_center (vx, vy, vw, vh) = (cx, cy)"
    by (simp add: box_center_def cx_def cy_def Let_def)
  have sc: "spec_center (py_int vx, py_int vy, py_int vw, py_int vh) = (cx, cy)"
    using assms(5,6) by (simp add: spec_center_def cx_def cy_def half_trunc)
  have ex: "normalized_error cx (frame_w fr) = Inr (Finite (spec_error cx (frame_w fr)))"
    and ebx: "\<bar>spec_error cx (frame_w fr)\<bar> \<le> 2 ^ 53"
    using error_spec [OF assms(1,2), of cx] assms(7) by (simp_all add: cx_def)
  have ey: "normalized_error cy (frame_h fr) = Inr (Finite (spec_error cy (frame_h fr)))"
    and eby: "\<bar>spec_error cy (frame_h fr)\<bar> \<le> 2 ^ 53"
    using error_spec [OF assms(3,4), of cy] assms(8) by (simp_all add: cy_def)
  have r: "fin (Finite (spec_error cx (frame_w fr))) = Inr (spec_fin (spec_error cx (frame_w fr)))"
    using ebx by (rule fin_spec)
  have l: "fin (Finite (- spec_error cx (frame_w fr))) =
      Inr (spec_fin (- spec_error cx (frame_w fr)))"
    using ebx by (intro fin_spec) simp
  have b: "fin (Finite (spec_error cy (frame_h fr))) = Inr (spec_fin (spec_error cy (frame_h fr)))"
    using eby by (rule fin_spec)
  have t: "fin (Finite (- spec_error cy (frame_h fr))) =
      Inr (spec_fin (- spec_error cy (frame_h fr)))"
    using eby by (intro fin_spec) simp
  have cmd: "compute_command (vx, vy, vw, vh) fr =
      Inr (spec_command (py_int vx, py_int vy, py_int vw, py_int vh) fr)"
    unfolding compute_command_def spec_command_def bc sc
    by (simp add: ex ey r l b t Let_def)
  show ?thesis
    using bc sc cmd by (simp add: track_step_def)
qed

theorem command_follows_formula_witness:
  "0 < frame_w \<lparr>frame_h = 480, frame_w = 640, pixels = []\<rparr> \<and>
   int (frame_w \<lparr>frame_h = 480, frame_w = 640, pixels = []\<rparr>) < 2 ^ 52 \<and>
   0 \<le> py_int 40 \<and> \<bar>py_int 980 + py_int 40 div 2\<bar> < 2 ^ 51 \<and>
   compute_command (980, 220, 40, 40) \<lparr>frame_h = 480, frame_w = 640, pixels = []\<rparr> =
     Inr (spec_command (py_int 980, py_int 220, py_int 40, py_int 40)
            \<lparr>frame_h = 480, frame_w = 640, pixels = []\<rparr>) \<and>
   spec_command (py_int 980, py_int 220, py_int 40, py_int 40)
     \<lparr>frame_h = 480, frame_w = 640, pixels = []\<rparr> =
     \<lparr>fin_left = - 63, fin_right = 63, fin_top = 0, fin_bottom = 0\<rparr>"
proof -
  have p: "py_int 980 = 980" "py_int 220 = 220" "py_int 40 = 40"
    by (simp_all add: py_int_def)
  have "compute_command (980, 220, 40, 40) \<lparr>frame_h = 480, frame_w = 640, pixels = []\<rparr> =
      Inr (spec_command (py_int 980, py_int 220, py_int 40, py_int 40)
             \<lparr>frame_h = 480, frame_w = 640, pixels = []\<rparr>)"
    using command_follows_formula
      [where fr = "\<lparr>frame_h = 480, frame_w = 640, pixels = []\<rparr>"
         and vx = 980 and vy = 220 and vw = 40 and vh = 40]
    by (simp add: p)
  then show ?thesis using example_command [of "[]"] by (simp add: p)
qed

section \<open>A run without a serial port\<close>

text \<open>
  Two iterations with no port: a selection in the first, a successful tracker update
  in the second (for which an open port would have been written to), then \<open>q\<close>.
\<close>

theorem no_serial_port_no_writes_witness:
  "\<not> serial_opens
      \<lparr>serial_opens = False, camera_opens = True,
       iterations =
         [\<lparr>grabbed = Some \<lparr>frame_h = 480, frame_w = 640, pixels = [7]\<rparr>,
           tracked = (False, (0, 0, 0, 0)), write_raises = True,
           events = [(EVENT_LBUTTONDOWN, 340, 220, False), (EVENT_LBUTTONUP, 300, 260, False)],
           key = - 1\<rparr>,
          \<lparr>grabbed = Some \<lparr>frame_h = 480, frame_w = 640, pixels = [8]\<rparr>,
           tracked = (True, (620, 220, 40, 40)), write_raises = True,
           events = [], key = 113\<rparr>]\<rparr> \<and>
   main \<lparr>serial_opens = False, camera_opens = True,
       iterations =
         [\<lparr>grabbed = Some \<lparr>frame_h = 480, frame_w = 640, pixels = [7]\<rparr>,
           tracked = (False, (0, 0, 0, 0)), write_raises = True,
           events = [(EVENT_LBUTTONDOWN, 340, 220, False), (EVENT_LBUTTONUP, 300, 260, False)],
           key = - 1\<rparr>,
          \<lparr>grabbed = Some \<lparr>frame_h = 480, frame_w = 640, pixels = [8]\<rparr>,
           tracked = (True, (620, 220, 40, 40)), write_raises = True,
           events = [], key = 113\<rparr>]\<rparr> =
     (Break,
      [TrackerInit \<lparr>frame_h = 480, frame_w = 640, pixels = [7]\<rparr> (300, 220, 40, 40),
       TrackerUpdate \<lparr>frame_h = 480, frame_w = 640, pixels = [8]\<rparr>,
       CapRelease])"
  using no_serial_port_no_writes
    [of "\<lparr>serial_opens = False, camera_opens = True,
       iterations =
         [\<lparr>grabbed = Some \<lparr>frame_h = 480, frame_w = 640, pixels = [7]\<rparr>,
           tracked = (False, (0, 0, 0, 0)), write_raises = True,
           events = [(EVENT_LBUTTONDOWN, 340, 220, False), (EVENT_LBUTTONUP, 300, 260, False)],
           key = - 1\<rparr>,
          \<lparr>grabbed = Some \<lparr>frame_h = 480, frame_w = 640, pixels = [8]\<rparr>,
           tracked = (True, (620, 220, 40, 40)), write_raises = True,
           events = [], key = 113\<rparr>]\<rparr>"]
  by (simp add: main_def loop_body_def track_step_def reset_def ord_r ord_q initial_state_def
      init_tracker_def writes_succeed_def example_edge_command)

end
